theory Spec2Isabelle
  imports Main "HOL-Library.Word"
begin

unbundle bit_operations_syntax

section \<open>The ATtiny13 hardware watchdog (hwdog.c)\<close>

text \<open>
  The program is one C file for an 8-bit AVR. Its variables are a \<open>volatile bool\<close>
  shared with the pin-change interrupt, one \<open>uint32_t\<close> counter and two \<open>uint8_t\<close>
  counters local to \<open>main\<close>; its outputs are the port B registers \<open>DDRB\<close> (direction)
  and \<open>PORTB\<close> (level). A pin whose \<open>DDRB\<close> bit is 0 and whose \<open>PORTB\<close> bit is 0 is
  tri-stated; a pin whose \<open>DDRB\<close> bit is 1 and whose \<open>PORTB\<close> bit is 0 drives low.
\<close>

type_synonym u8 = "8 word"
type_synonym u16 = "16 word"
type_synonym u32 = "32 word"

subsection \<open>Macros (hwdog.c lines 70-80)\<close>

definition TICK_MS :: nat where
  "TICK_MS = 100"

definition TIMEOUT_MINUTES :: nat where
  "TIMEOUT_MINUTES = 3"

text \<open>
  \<open>((uint32_t)TIMEOUT_MINUTES * (uint32_t)60 * (uint32_t)1000 / (uint32_t)TICK_MS)\<close>:
  every operand is cast to \<open>uint32_t\<close>, so the products wrap modulo \<open>2 ^ 32\<close> and the
  division is the unsigned one. The macro is given its two configuration macros as
  arguments so that other configurations can be examined.
\<close>

definition timeout_ticks_of :: "nat \<Rightarrow> nat \<Rightarrow> u32" where
  "timeout_ticks_of minutes tick_ms =
     (word_of_nat minutes * 60 * 1000) div word_of_nat tick_ms"

definition TIMEOUT_TICKS :: u32 where
  "TIMEOUT_TICKS = timeout_ticks_of TIMEOUT_MINUTES TICK_MS"

definition TIMEOUT_LED_MS :: u16 where
  "TIMEOUT_LED_MS = 15100"

definition ACTIVITY_LED_MS :: u16 where
  "ACTIVITY_LED_MS = 200"

text \<open>Bit numbers of port B as avr/io.h gives them (\<open>PBn\<close> is \<open>n\<close>), and \<open>_BV\<close>.\<close>

definition LED_ACTV :: nat where "LED_ACTV = 3"
definition PIN_KICK :: nat where "PIN_KICK = 4"
definition LED_TIME :: nat where "LED_TIME = 0"
definition PIN_RSTO :: nat where "PIN_RSTO = 1"
definition PB3 :: nat where "PB3 = 3"

definition BV :: "nat \<Rightarrow> u8" where
  "BV x = push_bit x 1"

subsection \<open>Compile-time configuration seen by the loop\<close>

text \<open>
  The loop uses three constants: \<open>TIMEOUT_TICKS\<close> (line 131),
  \<open>ACTIVITY_LED_MS / TICK_MS\<close> (line 127) and \<open>TIMEOUT_LED_MS / TICK_MS\<close> (line 142).
  The two quotients are computed in \<open>unsigned int\<close> (16 bits on AVR) and stored into
  \<open>uint8_t\<close> counters.
\<close>

record config =
  cfg_timeout_ticks :: u32
  cfg_timeout_led :: u8
  cfg_activity_led :: u8

definition reference_config :: config where
  "reference_config =
     \<lparr> cfg_timeout_ticks = TIMEOUT_TICKS,
       cfg_timeout_led = ucast (TIMEOUT_LED_MS div word_of_nat TICK_MS),
       cfg_activity_led = ucast (ACTIVITY_LED_MS div word_of_nat TICK_MS) \<rparr>"

subsection \<open>State\<close>

text \<open>
  What the hardware sees, in program order: every \<open>_delay_ms\<close> and every write to a
  port register. The log is the only observation of time; instructions other than
  \<open>_delay_ms\<close> count as taking none.
\<close>

datatype hw_event =
    Delay_ms nat
  | Write_DDRB u8
  | Write_PORTB u8

record wd_state =
  activity_flag :: bool
  timeout_counter :: u32
  timeout_led_count :: u8
  activity_led_count :: u8
  DDRB :: u8
  PORTB :: u8
  hw_log :: "hw_event list"

subsection \<open>Statements\<close>

definition delay_ms :: "nat \<Rightarrow> wd_state \<Rightarrow> wd_state" where
  "delay_ms n s = s\<lparr> hw_log := hw_log s @ [Delay_ms n] \<rparr>"

text \<open>\<open>DDRB |= m\<close>, \<open>DDRB &= ~m\<close>, \<open>PORTB |= m\<close>, \<open>PORTB &= ~m\<close>.\<close>

definition DDRB_or :: "u8 \<Rightarrow> wd_state \<Rightarrow> wd_state" where
  "DDRB_or m s =
     s\<lparr> DDRB := DDRB s OR m, hw_log := hw_log s @ [Write_DDRB (DDRB s OR m)] \<rparr>"

definition DDRB_andnot :: "u8 \<Rightarrow> wd_state \<Rightarrow> wd_state" where
  "DDRB_andnot m s =
     s\<lparr> DDRB := DDRB s AND NOT m, hw_log := hw_log s @ [Write_DDRB (DDRB s AND NOT m)] \<rparr>"

definition PORTB_or :: "u8 \<Rightarrow> wd_state \<Rightarrow> wd_state" where
  "PORTB_or m s =
     s\<lparr> PORTB := PORTB s OR m, hw_log := hw_log s @ [Write_PORTB (PORTB s OR m)] \<rparr>"

definition PORTB_andnot :: "u8 \<Rightarrow> wd_state \<Rightarrow> wd_state" where
  "PORTB_andnot m s =
     s\<lparr> PORTB := PORTB s AND NOT m, hw_log := hw_log s @ [Write_PORTB (PORTB s AND NOT m)] \<rparr>"

subsection \<open>The interrupt handler (lines 85-88)\<close>

definition ISR_PCINT0 :: "wd_state \<Rightarrow> wd_state" where
  "ISR_PCINT0 s = s\<lparr> activity_flag := True \<rparr>"

subsection \<open>The FLASH macro (line 90)\<close>

text \<open>
  \<open>for (int8_t i=0; i < 4; i++) { PORTB |= _BV(x); _delay_ms(330); PORTB &= ~_BV(x);
  _delay_ms(330); }\<close> between \<open>DDRB |= _BV(x)\<close> and \<open>DDRB &= ~_BV(x)\<close>. The loop
  variable is a signed byte and the test is the signed comparison.
\<close>

definition flash_body :: "nat \<Rightarrow> wd_state \<Rightarrow> wd_state" where
  "flash_body x s =
     delay_ms 330 (PORTB_andnot (BV x) (delay_ms 330 (PORTB_or (BV x) s)))"

function flash_loop :: "nat \<Rightarrow> 8 word \<Rightarrow> wd_state \<Rightarrow> wd_state" where
  "flash_loop x i s = (if i <s 4 then flash_loop x (i + 1) (flash_body x s) else s)"
  by pat_completeness auto
termination
proof (relation "measure (\<lambda>(x, i, s). nat (4 - sint i))")
  show "wf (measure (\<lambda>(x, i, s). nat (4 - sint i)))"
    by simp
next
  fix x :: nat and i :: "8 word" and s :: wd_state
  assume "i <s 4"
  then have lt: "sint i < 4"
    by (simp add: word_sless_alt)
  have ge: "- 128 \<le> sint i"
    using sint_ge [of i] by simp
  have "sint (i + 1) = signed_take_bit 7 (sint i + 1)"
    by (simp add: sint_word_add)
  also have "\<dots> = sint i + 1"
    using lt ge by (simp add: signed_take_bit_int_eq_self)
  finally have "sint (i + 1) = sint i + 1" .
  with lt show "((x, i + 1, flash_body x s), (x, i, s)) \<in> measure (\<lambda>(x, i, s). nat (4 - sint i))"
    by simp
qed

declare flash_loop.simps [simp del]

definition FLASH :: "nat \<Rightarrow> wd_state \<Rightarrow> wd_state" where
  "FLASH x s = DDRB_andnot (BV x) (flash_loop x 0 (DDRB_or (BV x) s))"

text \<open>Line 92 selects the first definition of \<open>FLASH_TEST\<close>.\<close>

definition FLASH_TEST :: "nat \<Rightarrow> wd_state \<Rightarrow> wd_state" where
  "FLASH_TEST x = FLASH x"

subsection \<open>One iteration of the loop of main (lines 121-159)\<close>

text \<open>Lines 125-129: the branch taken when \<open>activity_flag\<close> reads true.\<close>

definition activity_branch :: "config \<Rightarrow> wd_state \<Rightarrow> wd_state" where
  "activity_branch cfg s =
     PORTB_or (BV LED_ACTV) (DDRB_or (BV LED_ACTV)
       (s\<lparr> activity_flag := False,
           timeout_counter := 0,
           activity_led_count := cfg_activity_led cfg \<rparr>))"

text \<open>Lines 133-143: the body of the \<open>else if\<close>.\<close>

definition reset_pulse :: "wd_state \<Rightarrow> wd_state" where
  "reset_pulse s = DDRB_andnot (BV PIN_RSTO) (delay_ms 500 (DDRB_or (BV PIN_RSTO) s))"

definition timeout_branch :: "config \<Rightarrow> wd_state \<Rightarrow> wd_state" where
  "timeout_branch cfg s =
     (reset_pulse (DDRB_or (BV LED_TIME) (PORTB_or (BV LED_TIME) (FLASH_TEST PB3 s))))
       \<lparr> timeout_led_count := cfg_timeout_led cfg, timeout_counter := 0 \<rparr>"

text \<open>
  Lines 123-144. \<open>timeout_counter ++ >= TIMEOUT_TICKS\<close> compares the value the counter
  had before the increment and then stores the incremented value (modulo \<open>2 ^ 32\<close>).
\<close>

definition engine :: "config \<Rightarrow> wd_state \<Rightarrow> wd_state" where
  "engine cfg s =
     (if activity_flag s then activity_branch cfg s
      else
        let old = timeout_counter s;
            s1 = s\<lparr> timeout_counter := old + 1 \<rparr>
        in if old \<ge> cfg_timeout_ticks cfg then timeout_branch cfg s1 else s1)"

text \<open>Lines 145-151 and 152-158.\<close>

definition timeout_led_phase :: "wd_state \<Rightarrow> wd_state" where
  "timeout_led_phase s =
     (if timeout_led_count s > 0 then
        let s1 = s\<lparr> timeout_led_count := timeout_led_count s - 1 \<rparr>
        in if timeout_led_count s1 = 0 then PORTB_andnot (BV LED_TIME) s1 else s1
      else s)"

definition activity_led_phase :: "wd_state \<Rightarrow> wd_state" where
  "activity_led_phase s =
     (if activity_led_count s > 0 then
        let s1 = s\<lparr> activity_led_count := activity_led_count s - 1 \<rparr>
        in if activity_led_count s1 = 0 then PORTB_andnot (BV LED_ACTV) s1 else s1
      else s)"

definition indicator_phase :: "wd_state \<Rightarrow> wd_state" where
  "indicator_phase s = activity_led_phase (timeout_led_phase s)"

definition tick :: "config \<Rightarrow> wd_state \<Rightarrow> wd_state" where
  "tick cfg s = indicator_phase (engine cfg (delay_ms 100 s))"

subsection \<open>Start of main (lines 100-119)\<close>

text \<open>
  After a power-on reset \<open>DDRB\<close> and \<open>PORTB\<close> are zero (all pins tri-stated, as the
  comment on line 53 notes). Interrupts are enabled by \<open>sei()\<close> on line 119, so the
  flag is still false when the loop is entered.
\<close>

definition power_on :: wd_state where
  "power_on =
     \<lparr> activity_flag = False, timeout_counter = 0, timeout_led_count = 0,
       activity_led_count = 0, DDRB = 0, PORTB = 0, hw_log = [] \<rparr>"

definition main_init :: wd_state where
  "main_init =
     PORTB_andnot (BV LED_ACTV OR BV LED_TIME)
       (delay_ms 3000
         (PORTB_or (BV LED_ACTV OR BV LED_TIME)
           (DDRB_or (BV LED_ACTV OR BV LED_TIME) power_on)))"

subsection \<open>Runs of the loop\<close>

text \<open>
  A run of whole iterations. The boolean of an iteration says whether the pin-change
  interrupt was served while the loop sat in that iteration's \<open>_delay_ms(100)\<close>.
\<close>

fun run :: "config \<Rightarrow> bool list \<Rightarrow> wd_state \<Rightarrow> wd_state" where
  "run cfg [] s = s"
| "run cfg (k # ks) s = run cfg ks (tick cfg (if k then ISR_PCINT0 s else s))"

subsection \<open>Reading the reset line off the log\<close>

text \<open>
  The reset pin is \<open>PIN_RSTO\<close>; its \<open>PORTB\<close> bit is never written, so the pin drives
  (low) exactly while its \<open>DDRB\<close> bit is set. The scan walks a log from power-on and
  keeps, first, for how many milliseconds of \<open>_delay_ms\<close> the line has been driven
  since it was last switched to driving (\<open>None\<close> while it is tri-stated) and, second,
  the lengths of the pulses completed so far.
\<close>

type_synonym rst_scan = "nat option \<times> nat list"

fun scan_event :: "rst_scan \<Rightarrow> hw_event \<Rightarrow> rst_scan" where
  "scan_event (h, ps) (Delay_ms n) = (map_option (\<lambda>t. t + n) h, ps)"
| "scan_event (h, ps) (Write_DDRB v) =
     (if bit v PIN_RSTO
      then (case h of None \<Rightarrow> (Some 0, ps) | Some t \<Rightarrow> (Some t, ps))
      else (case h of None \<Rightarrow> (None, ps) | Some t \<Rightarrow> (None, ps @ [t])))"
| "scan_event (h, ps) (Write_PORTB v) = (h, ps)"

definition scan_log :: "hw_event list \<Rightarrow> rst_scan" where
  "scan_log evs = foldl scan_event (None, []) evs"

definition rst_held :: "hw_event list \<Rightarrow> nat option" where
  "rst_held evs = fst (scan_log evs)"

definition reset_pulses :: "hw_event list \<Rightarrow> nat list" where
  "reset_pulses evs = snd (scan_log evs)"

subsection \<open>The loop statement by statement, with the interrupt in between\<close>

text \<open>
  A program point names the statement of the loop that runs next, by its line in
  hwdog.c; the points inside the \<open>FLASH\<close> macro of line 133 carry the loop variable
  \<open>i\<close>. \<open>step\<close> runs that one statement. The interrupt handler may run between any two
  statements (interrupts stay enabled after line 119); a schedule says who runs next.
  The handler writes nothing but \<open>activity_flag\<close>, and the loop touches the flag only
  in the read of line 123 and the store of line 125, so a handler that runs in the
  middle of any other statement acts as one that runs just before or after it.
\<close>

datatype flash_pc =
    F_ddr_on
  | F_test "8 word"
  | F_port_on "8 word"
  | F_delay_on "8 word"
  | F_port_off "8 word"
  | F_delay_off "8 word"
  | F_incr "8 word"
  | F_ddr_off

datatype pc =
    L122 | L123 | L125 | L126 | L127 | L128 | L129
  | L131 | L133 flash_pc | L135 | L136 | L138 | L140 | L141 | L142 | L143
  | L145 | L146 | L148 | L149
  | L152 | L153 | L155 | L156

fun flash_step :: "nat \<Rightarrow> flash_pc \<Rightarrow> wd_state \<Rightarrow> flash_pc option \<times> wd_state" where
  "flash_step x F_ddr_on s = (Some (F_test 0), DDRB_or (BV x) s)"
| "flash_step x (F_test i) s = (Some (if i <s 4 then F_port_on i else F_ddr_off), s)"
| "flash_step x (F_port_on i) s = (Some (F_delay_on i), PORTB_or (BV x) s)"
| "flash_step x (F_delay_on i) s = (Some (F_port_off i), delay_ms 330 s)"
| "flash_step x (F_port_off i) s = (Some (F_delay_off i), PORTB_andnot (BV x) s)"
| "flash_step x (F_delay_off i) s = (Some (F_incr i), delay_ms 330 s)"
| "flash_step x (F_incr i) s = (Some (F_test (i + 1)), s)"
| "flash_step x F_ddr_off s = (None, DDRB_andnot (BV x) s)"

fun step :: "config \<Rightarrow> pc \<times> wd_state \<Rightarrow> pc \<times> wd_state" where
  "step cfg (L122, s) = (L123, delay_ms 100 s)"
| "step cfg (L123, s) = (if activity_flag s then L125 else L131, s)"
| "step cfg (L125, s) = (L126, s\<lparr> activity_flag := False \<rparr>)"
| "step cfg (L126, s) = (L127, s\<lparr> timeout_counter := 0 \<rparr>)"
| "step cfg (L127, s) = (L128, s\<lparr> activity_led_count := cfg_activity_led cfg \<rparr>)"
| "step cfg (L128, s) = (L129, DDRB_or (BV LED_ACTV) s)"
| "step cfg (L129, s) = (L145, PORTB_or (BV LED_ACTV) s)"
| "step cfg (L131, s) =
     (if timeout_counter s \<ge> cfg_timeout_ticks cfg then L133 F_ddr_on else L145,
      s\<lparr> timeout_counter := timeout_counter s + 1 \<rparr>)"
| "step cfg (L133 f, s) =
     (case flash_step PB3 f s of (Some f', s') \<Rightarrow> (L133 f', s') | (None, s') \<Rightarrow> (L135, s'))"
| "step cfg (L135, s) = (L136, PORTB_or (BV LED_TIME) s)"
| "step cfg (L136, s) = (L138, DDRB_or (BV LED_TIME) s)"
| "step cfg (L138, s) = (L140, DDRB_or (BV PIN_RSTO) s)"
| "step cfg (L140, s) = (L141, delay_ms 500 s)"
| "step cfg (L141, s) = (L142, DDRB_andnot (BV PIN_RSTO) s)"
| "step cfg (L142, s) = (L143, s\<lparr> timeout_led_count := cfg_timeout_led cfg \<rparr>)"
| "step cfg (L143, s) = (L145, s\<lparr> timeout_counter := 0 \<rparr>)"
| "step cfg (L145, s) = (if timeout_led_count s > 0 then L146 else L152, s)"
| "step cfg (L146, s) = (L148, s\<lparr> timeout_led_count := timeout_led_count s - 1 \<rparr>)"
| "step cfg (L148, s) = (if timeout_led_count s = 0 then L149 else L152, s)"
| "step cfg (L149, s) = (L152, PORTB_andnot (BV LED_TIME) s)"
| "step cfg (L152, s) = (if activity_led_count s > 0 then L153 else L122, s)"
| "step cfg (L153, s) = (L155, s\<lparr> activity_led_count := activity_led_count s - 1 \<rparr>)"
| "step cfg (L155, s) = (if activity_led_count s = 0 then L156 else L122, s)"
| "step cfg (L156, s) = (L122, PORTB_andnot (BV LED_ACTV) s)"

datatype actor = Main | Irq

fun exec :: "config \<Rightarrow> actor list \<Rightarrow> pc \<times> wd_state \<Rightarrow> pc \<times> wd_state" where
  "exec cfg [] c = c"
| "exec cfg (Main # as) c = exec cfg as (step cfg c)"
| "exec cfg (Irq # as) (p, s) = exec cfg as (p, ISR_PCINT0 s)"

text \<open>
  Does some read of the flag on line 123 return true while the schedule runs? That read
  is how the main loop observes activity.
\<close>

fun observes :: "config \<Rightarrow> actor list \<Rightarrow> pc \<times> wd_state \<Rightarrow> bool" where
  "observes cfg [] c = False"
| "observes cfg (Main # as) (p, s) =
     ((p = L123 \<and> activity_flag s) \<or> observes cfg as (step cfg (p, s)))"
| "observes cfg (Irq # as) (p, s) = observes cfg as (p, ISR_PCINT0 s)"

text \<open>
  The main loop alone, from a program point until it is next at the top of the loop
  (line 122), within a bound on the number of statements.
\<close>

fun iterate_to_top :: "nat \<Rightarrow> config \<Rightarrow> pc \<times> wd_state \<Rightarrow> wd_state option" where
  "iterate_to_top 0 cfg c = None"
| "iterate_to_top (Suc k) cfg c =
     (case step cfg c of (p', s') \<Rightarrow>
        if p' = L122 then Some s' else iterate_to_top k cfg (p', s'))"

text \<open>
  The program points the loop can be at: inside \<open>FLASH\<close> the loop variable is between
  0 and 4, and below 4 inside the body of its \<open>for\<close>.
\<close>

fun flash_ok :: "flash_pc \<Rightarrow> bool" where
  "flash_ok F_ddr_on = True"
| "flash_ok (F_test i) = (0 \<le>s i \<and> i \<le>s 4)"
| "flash_ok (F_port_on i) = (0 \<le>s i \<and> i <s 4)"
| "flash_ok (F_delay_on i) = (0 \<le>s i \<and> i <s 4)"
| "flash_ok (F_port_off i) = (0 \<le>s i \<and> i <s 4)"
| "flash_ok (F_delay_off i) = (0 \<le>s i \<and> i <s 4)"
| "flash_ok (F_incr i) = (0 \<le>s i \<and> i <s 4)"
| "flash_ok F_ddr_off = True"

definition pc_ok :: "pc \<Rightarrow> bool" where
  "pc_ok p = (case p of L133 f \<Rightarrow> flash_ok f | _ \<Rightarrow> True)"

text \<open>
  An upper bound on the number of statements the main loop still runs before it is
  about to read the flag on line 123.
\<close>

fun flash_todo :: "flash_pc \<Rightarrow> nat" where
  "flash_todo F_ddr_on = 43"
| "flash_todo (F_test i) = 6 * nat (4 - sint i) + 18"
| "flash_todo (F_port_on i) = 6 * nat (4 - sint i) + 17"
| "flash_todo (F_delay_on i) = 6 * nat (4 - sint i) + 16"
| "flash_todo (F_port_off i) = 6 * nat (4 - sint i) + 15"
| "flash_todo (F_delay_off i) = 6 * nat (4 - sint i) + 14"
| "flash_todo (F_incr i) = 6 * nat (4 - sint i) + 13"
| "flash_todo F_ddr_off = 17"

fun todo :: "pc \<Rightarrow> nat" where
  "todo L123 = 0"
| "todo L122 = 1"
| "todo L156 = 2"
| "todo L155 = 3"
| "todo L153 = 4"
| "todo L152 = 5"
| "todo L149 = 6"
| "todo L148 = 7"
| "todo L146 = 8"
| "todo L145 = 9"
| "todo L143 = 10"
| "todo L142 = 11"
| "todo L141 = 12"
| "todo L140 = 13"
| "todo L138 = 14"
| "todo L136 = 15"
| "todo L135 = 16"
| "todo (L133 f) = flash_todo f"
| "todo L131 = 44"
| "todo L129 = 45"
| "todo L128 = 46"
| "todo L127 = 47"
| "todo L126 = 48"
| "todo L125 = 49"

subsection \<open>Predicates used to state the properties\<close>

text \<open>
  The reset line is released: the log read from power-on ends with the line tri-stated,
  and the \<open>DDRB\<close> bit of the reset pin is clear.
\<close>

definition released :: "wd_state \<Rightarrow> bool" where
  "released s = (rst_held (hw_log s) = None \<and> \<not> bit (DDRB s) PIN_RSTO)"

text \<open>The condition under which line 131 enters the body of the \<open>else if\<close>.\<close>

definition fires :: "config \<Rightarrow> wd_state \<Rightarrow> bool" where
  "fires cfg s = (\<not> activity_flag s \<and> cfg_timeout_ticks cfg \<le> timeout_counter s)"

text \<open>The configuration of the specification's scenarios: a threshold of 3 ticks.\<close>

definition scenario_config :: config where
  "scenario_config = reference_config\<lparr> cfg_timeout_ticks := 3 \<rparr>"

text \<open>
  An indicator LED is driven on: its pin is an output (\<open>DDRB\<close>) and high (\<open>PORTB\<close>).
\<close>

definition led_on :: "nat \<Rightarrow> wd_state \<Rightarrow> bool" where
  "led_on x s = (bit (DDRB s) x \<and> bit (PORTB s) x)"

text \<open>
  At the top of the loop each LED is on exactly while its counter is not zero; the
  activity counter is at most 1 there and the timeout LED pin is an output.
\<close>

definition leds_consistent :: "wd_state \<Rightarrow> bool" where
  "leds_consistent s =
     (led_on LED_ACTV s = (0 < activity_led_count s)
      \<and> led_on LED_TIME s = (0 < timeout_led_count s)
      \<and> bit (PORTB s) LED_ACTV = (0 < activity_led_count s)
      \<and> bit (DDRB s) LED_TIME
      \<and> activity_led_count s \<le> 1)"

fun is_PORTB_write :: "hw_event \<Rightarrow> bool" where
  "is_PORTB_write (Write_PORTB v) = True"
| "is_PORTB_write e = False"

text \<open>
  The reset line at a program point: the pin drives exactly between the statement of
  line 138 and the statement of line 141, it has been held for 0 ms before the delay of
  line 140 and for 500 ms after it, its \<open>PORTB\<close> bit is clear, and every completed pulse
  lasted 500 ms.
\<close>

definition rst_inv :: "pc \<times> wd_state \<Rightarrow> bool" where
  "rst_inv c =
     (case c of (p, s) \<Rightarrow>
        bit (DDRB s) PIN_RSTO = (p = L140 \<or> p = L141)
        \<and> \<not> bit (PORTB s) PIN_RSTO
        \<and> rst_held (hw_log s) = (if p = L140 then Some 0 else if p = L141 then Some 500 else None)
        \<and> list_all (\<lambda>d. d = 500) (reset_pulses (hw_log s)))"

section \<open>Basic facts\<close>

lemmas stmt_defs = delay_ms_def DDRB_or_def DDRB_andnot_def PORTB_or_def PORTB_andnot_def

lemmas pin_defs = LED_ACTV_def LED_TIME_def PIN_RSTO_def PIN_KICK_def PB3_def BV_def

lemma sint_succ_below_4:
  fixes i :: "8 word"
  assumes "i <s 4"
  shows "sint (i + 1) = sint i + 1"
proof -
  from assms have lt: "sint i < 4"
    by (simp add: word_sless_alt)
  have ge: "- 128 \<le> sint i"
    using sint_ge [of i] by simp
  have "sint (i + 1) = signed_take_bit 7 (sint i + 1)"
    by (simp add: sint_word_add)
  also have "\<dots> = sint i + 1"
    using lt ge by (simp add: signed_take_bit_int_eq_self)
  finally show ?thesis .
qed

lemma flash_loop_0:
  "flash_loop x 0 s = flash_body x (flash_body x (flash_body x (flash_body x s)))"
  apply (subst flash_loop.simps, simp add: word_sless_alt)
  apply (subst flash_loop.simps, simp add: word_sless_alt)
  apply (subst flash_loop.simps, simp add: word_sless_alt)
  apply (subst flash_loop.simps, simp add: word_sless_alt)
  apply (subst flash_loop.simps, simp add: word_sless_alt)
  done

lemmas engine_defs = engine_def activity_branch_def timeout_branch_def reset_pulse_def
  FLASH_TEST_def FLASH_def flash_body_def flash_loop_0 stmt_defs Let_def

lemmas indicator_defs = indicator_phase_def timeout_led_phase_def activity_led_phase_def
  stmt_defs Let_def

subsection \<open>Scanning a log\<close>

lemma scan_log_append: "scan_log (xs @ ys) = foldl scan_event (scan_log xs) ys"
  by (simp add: scan_log_def)

lemma released_scan: "released s \<Longrightarrow> scan_log (hw_log s) = (None, reset_pulses (hw_log s))"
  by (simp add: released_def rst_held_def reset_pulses_def prod_eq_iff)

subsection \<open>What lines 123-144 do to each variable\<close>

lemma engine_flag: "activity_flag (engine cfg s) = False"
  by (simp add: engine_defs)

lemma engine_counter:
  "timeout_counter (engine cfg s) =
    (if activity_flag s \<or> cfg_timeout_ticks cfg \<le> timeout_counter s then 0
     else timeout_counter s + 1)"
  by (simp add: engine_defs)

lemma engine_aled:
  "activity_led_count (engine cfg s) =
    (if activity_flag s then cfg_activity_led cfg else activity_led_count s)"
  by (simp add: engine_defs)

lemma engine_tled:
  "timeout_led_count (engine cfg s) =
    (if fires cfg s then cfg_timeout_led cfg else timeout_led_count s)"
  by (simp add: engine_defs fires_def)

lemma engine_DDRB:
  "DDRB (engine cfg s) =
    (if activity_flag s then DDRB s OR BV LED_ACTV
     else if cfg_timeout_ticks cfg \<le> timeout_counter s
       then ((DDRB s AND NOT (BV LED_ACTV)) OR BV LED_TIME) AND NOT (BV PIN_RSTO)
       else DDRB s)"
  apply (simp add: engine_defs pin_defs)
  apply (rule impI)+
  apply (rule bit_word_eqI)
  apply (auto simp add: bit_simps)
  done

lemma engine_PORTB:
  "PORTB (engine cfg s) =
    (if activity_flag s then PORTB s OR BV LED_ACTV
     else if cfg_timeout_ticks cfg \<le> timeout_counter s
       then (PORTB s AND NOT (BV LED_ACTV)) OR BV LED_TIME
       else PORTB s)"
  apply (simp add: engine_defs pin_defs)
  apply (rule impI)+
  apply (rule bit_word_eqI)
  apply (auto simp add: bit_simps)
  done

lemma engine_scan:
  assumes "released s"
  shows "scan_log (hw_log (engine cfg s)) =
     (None, reset_pulses (hw_log s) @ (if fires cfg s then [500] else []))"
proof -
  have nb: "\<not> bit (DDRB s) PIN_RSTO"
    using assms by (simp add: released_def)
  show ?thesis
    using nb
    by (simp add: fires_def engine_defs scan_log_append released_scan [OF assms]
        pin_defs bit_simps)
qed

lemma delay_fields:
  "activity_flag (delay_ms n s) = activity_flag s"
  "timeout_counter (delay_ms n s) = timeout_counter s"
  "timeout_led_count (delay_ms n s) = timeout_led_count s"
  "activity_led_count (delay_ms n s) = activity_led_count s"
  "DDRB (delay_ms n s) = DDRB s"
  "PORTB (delay_ms n s) = PORTB s"
  "hw_log (delay_ms n s) = hw_log s @ [Delay_ms n]"
  by (simp_all add: delay_ms_def)

subsection \<open>What lines 145-158 do to each variable\<close>

lemma indicator_frame:
  "activity_flag (indicator_phase s) = activity_flag s"
  "timeout_counter (indicator_phase s) = timeout_counter s"
  "DDRB (indicator_phase s) = DDRB s"
  by (simp_all add: indicator_defs)

lemma indicator_counts:
  "timeout_led_count (indicator_phase s) =
     (if 0 < timeout_led_count s then timeout_led_count s - 1 else timeout_led_count s)"
  "activity_led_count (indicator_phase s) =
     (if 0 < activity_led_count s then activity_led_count s - 1 else activity_led_count s)"
  by (simp_all add: indicator_defs)

lemma indicator_PORTB:
  "PORTB (indicator_phase s) =
    (PORTB s AND NOT (if timeout_led_count s = 1 then BV LED_TIME else 0))
       AND NOT (if activity_led_count s = 1 then BV LED_ACTV else 0)"
  by (simp add: indicator_defs word_greater_zero_iff)

lemma indicator_scan: "scan_log (hw_log (indicator_phase s)) = scan_log (hw_log s)"
  by (cases "scan_log (hw_log s)") (simp add: indicator_defs scan_log_append)

subsection \<open>What one iteration does\<close>

lemma tick_flag: "activity_flag (tick cfg s) = False"
  by (simp add: tick_def indicator_frame engine_flag)

lemma fires_delay: "fires cfg (delay_ms n s) = fires cfg s"
  by (simp add: fires_def delay_fields)

lemma tick_counter:
  "timeout_counter (tick cfg s) =
    (if activity_flag s \<or> cfg_timeout_ticks cfg \<le> timeout_counter s then 0
     else timeout_counter s + 1)"
  by (simp add: tick_def indicator_frame engine_counter delay_fields)

lemma released_delay: "released s \<Longrightarrow> released (delay_ms n s)"
  using released_scan [of s]
  by (simp add: released_def delay_fields rst_held_def scan_log_append)

lemma reset_pulses_delay: "reset_pulses (hw_log (delay_ms n s)) = reset_pulses (hw_log s)"
  by (cases "scan_log (hw_log s)") (simp add: delay_fields reset_pulses_def scan_log_append)

lemma tick_scan:
  assumes "released s"
  shows "scan_log (hw_log (tick cfg s)) =
     (None, reset_pulses (hw_log s) @ (if fires cfg s then [500] else []))"
  by (simp add: tick_def indicator_scan engine_scan [OF released_delay [OF assms]]
      fires_delay reset_pulses_delay)

lemma tick_pulses:
  "released s \<Longrightarrow> reset_pulses (hw_log (tick cfg s)) =
     reset_pulses (hw_log s) @ (if fires cfg s then [500] else [])"
  using tick_scan [of s cfg] by (simp add: reset_pulses_def)

lemma tick_DDRB_rst: "bit (DDRB (tick cfg s)) PIN_RSTO = (bit (DDRB s) PIN_RSTO \<and> \<not> fires cfg s)"
  by (auto simp add: tick_def indicator_frame engine_DDRB delay_fields fires_def pin_defs bit_simps)

lemma tick_released: "released s \<Longrightarrow> released (tick cfg s)"
  using tick_scan [of s cfg] tick_DDRB_rst [of cfg s]
  by (simp add: released_def rst_held_def)

lemma released_ISR: "released (ISR_PCINT0 s) = released s"
  by (simp add: released_def ISR_PCINT0_def)

lemma released_main_init: "released main_init"
  by (simp add: released_def main_init_def power_on_def stmt_defs rst_held_def scan_log_def pin_defs)

lemma run_released: "released s \<Longrightarrow> released (run cfg ks s)"
  by (induction ks arbitrary: s) (simp_all add: tick_released released_ISR)

lemma run_append: "run cfg (xs @ ys) s = run cfg ys (run cfg xs s)"
  by (induction xs arbitrary: s) simp_all

lemma run_flag: "\<not> activity_flag s \<Longrightarrow> \<not> activity_flag (run cfg ks s)"
  by (induction ks arbitrary: s) (simp_all add: tick_flag)

subsection \<open>The threshold macro\<close>

lemma reference_ticks: "TIMEOUT_TICKS = 1800"
  by (simp add: TIMEOUT_TICKS_def timeout_ticks_of_def TIMEOUT_MINUTES_def TICK_MS_def)

lemma timeout_ticks_exact:
  assumes "minutes * 60000 < 2 ^ 32" and "tick_ms < 2 ^ 32"
  shows "unat (timeout_ticks_of minutes tick_ms) = (minutes * 60 * 1000) div tick_ms"
proof -
  have m: "minutes < 2 ^ 32" using assms(1) by simp
  have "(word_of_nat minutes * 60 * 1000 :: u32) = word_of_nat (minutes * 60000)"
    by simp
  then have "unat (word_of_nat minutes * 60 * 1000 :: u32) = minutes * 60000"
    using assms(1) by (simp add: unat_of_nat del: of_nat_mult)
  moreover have "unat (word_of_nat tick_ms :: u32) = tick_ms"
    using assms(2) by (simp add: unat_of_nat)
  ultimately show ?thesis
    by (simp add: timeout_ticks_of_def unat_div mult.commute)
qed

subsection \<open>Runs without activity\<close>

lemma word_succ_nonzero:
  fixes x y :: "'a::len word"
  assumes "x < y"
  shows "x + 1 \<noteq> 0"
  by (metis assms eq_neg_iff_add_eq_0 word_not_simps(3))

lemma unat_succ_below:
  fixes x y :: "'a::len word"
  assumes "x < y"
  shows "unat (x + 1) = unat x + 1"
proof -
  have "1 + x \<noteq> 0"
    using word_succ_nonzero [OF assms] by (simp add: add.commute)
  then have "unat (1 + x) = Suc (unat x)"
    by (rule unatSuc)
  then show ?thesis
    by (simp add: add.commute)
qed

lemma idle_run:
  assumes "\<not> activity_flag s" and "released s"
    and "unat (timeout_counter s) + n \<le> unat (cfg_timeout_ticks cfg)"
  shows "timeout_counter (run cfg (replicate n False) s) = timeout_counter s + word_of_nat n
       \<and> reset_pulses (hw_log (run cfg (replicate n False) s)) = reset_pulses (hw_log s)"
  using assms
proof (induction n arbitrary: s)
  case 0
  then show ?case by simp
next
  case (Suc n)
  from Suc.prems(3) have lt: "timeout_counter s < cfg_timeout_ticks cfg"
    by (simp add: word_less_nat_alt)
  then have nle: "\<not> cfg_timeout_ticks cfg \<le> timeout_counter s"
    by (simp add: not_le)
  have nf: "\<not> fires cfg s"
    using nle by (simp add: fires_def)
  have c: "timeout_counter (tick cfg s) = timeout_counter s + 1"
    using nle Suc.prems(1) by (simp add: tick_counter)
  have p: "reset_pulses (hw_log (tick cfg s)) = reset_pulses (hw_log s)"
    using nf Suc.prems(2) by (simp add: tick_pulses)
  have "unat (timeout_counter (tick cfg s)) + n \<le> unat (cfg_timeout_ticks cfg)"
    using Suc.prems(3) unat_succ_below [OF lt] by (simp add: c)
  from Suc.IH [OF _ tick_released [OF Suc.prems(2)] this] c p
  show ?case
    by (simp add: tick_flag)
qed

lemma run_snoc: "run cfg (ks @ [k]) s = tick cfg (if k then ISR_PCINT0 (run cfg ks s) else run cfg ks s)"
  by (simp add: run_append)

lemma replicate_snoc: "replicate (Suc n) x = replicate n x @ [x]"
  by (simp add: replicate_append_same)

lemma main_init_fields:
  "activity_flag main_init = False" "timeout_counter main_init = 0"
  "reset_pulses (hw_log main_init) = []"
  by (simp_all add: main_init_def power_on_def stmt_defs reset_pulses_def scan_log_def)

lemma reference_threshold: "cfg_timeout_ticks reference_config = 1800"
  by (simp add: reference_config_def reference_ticks)

lemma scenario_threshold: "cfg_timeout_ticks scenario_config = 3"
  by (simp add: scenario_config_def)

lemma next_fire:
  assumes "\<not> activity_flag s" and "released s" and "timeout_counter s = 0"
    and "unat (cfg_timeout_ticks cfg) = n"
  shows "reset_pulses (hw_log (run cfg (replicate n False) s)) = reset_pulses (hw_log s)
     \<and> timeout_counter (run cfg (replicate n False) s) = cfg_timeout_ticks cfg
     \<and> reset_pulses (hw_log (run cfg (replicate (Suc n) False) s)) = reset_pulses (hw_log s) @ [500]
     \<and> timeout_counter (run cfg (replicate (Suc n) False) s) = 0"
proof -
  let ?s = "run cfg (replicate n False) s"
  have i: "timeout_counter ?s = word_of_nat n \<and> reset_pulses (hw_log ?s) = reset_pulses (hw_log s)"
    using idle_run [of s n cfg] assms by simp
  have t: "timeout_counter ?s = cfg_timeout_ticks cfg"
    using i assms(4) by auto
  have nf: "\<not> activity_flag ?s"
    by (rule run_flag) (rule assms(1))
  have r: "released ?s"
    by (rule run_released [OF assms(2)])
  have f: "fires cfg ?s"
    using nf t by (simp add: fires_def)
  show ?thesis
    using i t nf f r
    by (simp add: replicate_snoc run_snoc tick_pulses tick_counter del: replicate_Suc)
qed

lemma first_fire:
  assumes "unat (cfg_timeout_ticks cfg) = n"
  shows "reset_pulses (hw_log (run cfg (replicate n False) main_init)) = []
     \<and> timeout_counter (run cfg (replicate n False) main_init) = cfg_timeout_ticks cfg
     \<and> reset_pulses (hw_log (run cfg (replicate (Suc n) False) main_init)) = [500]
     \<and> timeout_counter (run cfg (replicate (Suc n) False) main_init) = 0"
  using next_fire [OF _ released_main_init _ assms]
  by (simp add: main_init_fields)

lemma second_fire:
  assumes "unat (cfg_timeout_ticks cfg) = n"
  shows "reset_pulses (hw_log (run cfg (replicate (Suc n + n) False) main_init)) = [500]
     \<and> reset_pulses (hw_log (run cfg (replicate (Suc n + Suc n) False) main_init)) = [500, 500]"
proof -
  let ?s = "run cfg (replicate (Suc n) False) main_init"
  have nf: "\<not> activity_flag ?s"
    by (rule run_flag) (simp add: main_init_fields)
  have r: "released ?s"
    by (rule run_released [OF released_main_init])
  have z: "timeout_counter ?s = 0" and p: "reset_pulses (hw_log ?s) = [500]"
    using first_fire [OF assms] by simp_all
  show ?thesis
    using next_fire [OF nf r z assms] p
    by (simp only: replicate_add run_append) simp
qed

lemma ISR_fields:
  "activity_flag (ISR_PCINT0 s) = True"
  "timeout_counter (ISR_PCINT0 s) = timeout_counter s"
  "hw_log (ISR_PCINT0 s) = hw_log s"
  "DDRB (ISR_PCINT0 s) = DDRB s"
  by (simp_all add: ISR_PCINT0_def)

lemmas run_eval = tick_counter tick_flag tick_pulses tick_released released_ISR
  released_main_init ISR_fields main_init_fields fires_def

subsection \<open>Statement-level and indicator facts\<close>

lemma step_counter:
  "timeout_counter (snd (step cfg (p, s))) =
     (if p = L126 \<or> p = L143 then 0
      else if p = L131 then timeout_counter s + 1 else timeout_counter s)"
proof (cases p)
  case (L133 f)
  then show ?thesis
    by (cases f) (simp_all add: stmt_defs)
qed (simp_all add: stmt_defs)

lemma indicator_log:
  "\<exists>evs. hw_log (indicator_phase s) = hw_log s @ evs \<and> list_all is_PORTB_write evs"
  by (simp add: indicator_defs)

lemma indicator_PORTB_others:
  "PORTB (indicator_phase s) OR (BV LED_TIME OR BV LED_ACTV) = PORTB s OR (BV LED_TIME OR BV LED_ACTV)"
  apply (rule bit_word_eqI)
  apply (auto simp add: indicator_PORTB BV_def bit_simps)
  done

lemma word_le_1_cases:
  fixes x :: "'a::len word"
  shows "x \<le> 1 \<Longrightarrow> x = 0 \<or> x = 1"
  by (metis word_le_less_eq word_less_1)

lemma tick_leds_consistent:
  assumes a: "cfg_activity_led cfg = 2" and t: "0 < cfg_timeout_led cfg"
    and i: "leds_consistent s"
  shows "leds_consistent (tick cfg s)"
proof -
  from i have "activity_led_count s = 0 \<or> activity_led_count s = 1"
    by (simp add: leds_consistent_def word_le_1_cases)
  then show ?thesis
    using a t i
    by (auto simp add: leds_consistent_def led_on_def tick_def indicator_PORTB indicator_counts
        indicator_frame engine_aled engine_tled engine_PORTB engine_DDRB delay_fields
        fires_def pin_defs bit_simps word_greater_zero_iff)
qed

lemma leds_consistent_ISR: "leds_consistent (ISR_PCINT0 s) = leds_consistent s"
  by (simp add: leds_consistent_def led_on_def ISR_PCINT0_def)

lemma leds_consistent_main_init: "leds_consistent main_init"
  by (simp add: leds_consistent_def led_on_def main_init_def power_on_def stmt_defs pin_defs
      bit_simps)

lemma run_leds_consistent:
  assumes "cfg_activity_led cfg = 2" and "0 < cfg_timeout_led cfg" and "leds_consistent s"
  shows "leds_consistent (run cfg ks s)"
  using assms(3)
  by (induction ks arbitrary: s)
     (simp_all add: tick_leds_consistent [OF assms(1,2)] leds_consistent_ISR)

lemma reference_leds:
  "cfg_activity_led (reference_config\<lparr> cfg_timeout_ticks := thr \<rparr>) = 2"
  "cfg_timeout_led (reference_config\<lparr> cfg_timeout_ticks := thr \<rparr>) = 151"
  "cfg_activity_led reference_config = 2"
  "cfg_timeout_led reference_config = 151"
  by (simp_all add: reference_config_def ACTIVITY_LED_MS_def TIMEOUT_LED_MS_def TICK_MS_def)

lemma no_fire_tick:
  assumes "\<not> fires cfg s"
  shows "timeout_led_count (tick cfg s) =
           (if 0 < timeout_led_count s then timeout_led_count s - 1 else 0)"
    and "bit (PORTB (tick cfg s)) LED_TIME = (bit (PORTB s) LED_TIME \<and> timeout_led_count s \<noteq> 1)"
    and "bit (DDRB (tick cfg s)) LED_TIME = bit (DDRB s) LED_TIME"
  using assms
  by (auto simp add: tick_def indicator_counts indicator_PORTB indicator_frame engine_tled
      engine_PORTB engine_DDRB fires_delay delay_fields fires_def pin_defs bit_simps
      word_greater_zero_iff)

lemma tled_countdown:
  assumes "unat (timeout_counter u) + length ks \<le> unat (cfg_timeout_ticks cfg)"
    and "length ks \<le> unat (timeout_led_count u)"
  shows "timeout_led_count (run cfg ks u) = timeout_led_count u - word_of_nat (length ks)
     \<and> bit (PORTB (run cfg ks u)) LED_TIME
         = (bit (PORTB u) LED_TIME \<and> (ks = [] \<or> length ks < unat (timeout_led_count u)))
     \<and> bit (DDRB (run cfg ks u)) LED_TIME = bit (DDRB u) LED_TIME"
  using assms
proof (induction ks arbitrary: u)
  case Nil
  then show ?case by simp
next
  case (Cons k ks)
  define u0 where "u0 = (if k then ISR_PCINT0 u else u)"
  have lt: "timeout_counter u < cfg_timeout_ticks cfg"
    using Cons.prems(1) by (simp add: word_less_nat_alt)
  then have nf: "\<not> fires cfg u0"
    by (simp add: u0_def fires_def ISR_fields not_le)
  have tl: "timeout_led_count u0 = timeout_led_count u" "PORTB u0 = PORTB u" "DDRB u0 = DDRB u"
    by (simp_all add: u0_def ISR_PCINT0_def)
  have pos: "timeout_led_count u \<noteq> 0"
    using Cons.prems(2) by (auto simp add: unat_eq_0)
  have c: "unat (timeout_counter (tick cfg u0)) \<le> unat (timeout_counter u) + 1"
    using unat_succ_below [OF lt] lt
    by (simp add: tick_counter u0_def ISR_fields not_le)
  have d: "unat (timeout_led_count (tick cfg u0)) = unat (timeout_led_count u) - 1"
    using pos by (simp add: no_fire_tick(1) [OF nf] tl word_greater_zero_iff unat_minus_one)
  have "unat (timeout_counter (tick cfg u0)) + length ks \<le> unat (cfg_timeout_ticks cfg)"
    using c Cons.prems(1) by simp
  moreover have "length ks \<le> unat (timeout_led_count (tick cfg u0))"
    using d Cons.prems(2) by simp
  ultimately have ih:
    "timeout_led_count (run cfg ks (tick cfg u0))
        = timeout_led_count (tick cfg u0) - word_of_nat (length ks)
     \<and> bit (PORTB (run cfg ks (tick cfg u0))) LED_TIME
         = (bit (PORTB (tick cfg u0)) LED_TIME
            \<and> (ks = [] \<or> length ks < unat (timeout_led_count (tick cfg u0))))
     \<and> bit (DDRB (run cfg ks (tick cfg u0))) LED_TIME = bit (DDRB (tick cfg u0)) LED_TIME"
    by (rule Cons.IH)
  have one: "(timeout_led_count u = 1) = (unat (timeout_led_count u) = 1)"
    by (metis unat_1 word_unat_eq_iff)
  have r: "run cfg (k # ks) u = run cfg ks (tick cfg u0)"
    by (simp add: u0_def)
  show ?case
    unfolding r
    using ih pos d Cons.prems(2)
    by (auto simp add: no_fire_tick [OF nf] tl word_greater_zero_iff one)
qed

lemma fire_tick_leds:
  assumes "fires cfg s"
  shows "timeout_led_count (tick cfg s) =
           (if 0 < cfg_timeout_led cfg then cfg_timeout_led cfg - 1 else 0)"
    and "bit (PORTB (tick cfg s)) LED_TIME = (cfg_timeout_led cfg \<noteq> 1)"
    and "bit (DDRB (tick cfg s)) LED_TIME"
  using assms
  by (auto simp add: tick_def indicator_counts indicator_PORTB indicator_frame engine_tled
      engine_PORTB engine_DDRB fires_delay delay_fields fires_def pin_defs bit_simps
      word_greater_zero_iff)

lemma activity_tick_leds:
  assumes "activity_flag s"
  shows "activity_led_count (tick cfg s) =
           (if 0 < cfg_activity_led cfg then cfg_activity_led cfg - 1 else 0)"
    and "led_on LED_ACTV (tick cfg s) = (cfg_activity_led cfg \<noteq> 1)"
  using assms
  by (auto simp add: led_on_def tick_def indicator_counts indicator_PORTB indicator_frame
      engine_aled engine_PORTB engine_DDRB delay_fields pin_defs bit_simps
      word_greater_zero_iff)

lemma last_count_tick:
  assumes "activity_led_count s = 1" and "\<not> activity_flag s"
  shows "activity_led_count (tick cfg s) = 0" and "\<not> led_on LED_ACTV (tick cfg s)"
  using assms
  by (auto simp add: led_on_def tick_def indicator_counts indicator_PORTB indicator_frame
      engine_aled engine_PORTB engine_DDRB delay_fields pin_defs bit_simps)

subsection \<open>The reset line at every program point\<close>

lemma rst_inv_alt:
  "rst_inv (p, s) =
     (bit (DDRB s) PIN_RSTO = (p = L140 \<or> p = L141)
      \<and> \<not> bit (PORTB s) PIN_RSTO
      \<and> (\<exists>ps. scan_log (hw_log s)
              = (if p = L140 then Some 0 else if p = L141 then Some 500 else None, ps)
            \<and> list_all (\<lambda>d. d = 500) ps))"
  by (cases "scan_log (hw_log s)") (auto simp add: rst_inv_def rst_held_def reset_pulses_def)

lemma rst_inv_flash:
  assumes "rst_inv (L133 f, s)"
  shows "rst_inv (step cfg (L133 f, s))"
  using assms
  by (cases f)
     (auto simp add: rst_inv_alt stmt_defs scan_log_append pin_defs bit_simps)

lemma rst_inv_step:
  assumes "rst_inv (p, s)"
  shows "rst_inv (step cfg (p, s))"
proof (cases p)
  case (L133 f)
  then show ?thesis
    using assms rst_inv_flash by simp
qed (use assms in \<open>auto simp add: rst_inv_alt stmt_defs scan_log_append pin_defs bit_simps\<close>)

lemma rst_inv_irq: "rst_inv (p, ISR_PCINT0 s) = rst_inv (p, s)"
  by (simp add: rst_inv_def ISR_PCINT0_def)

lemma rst_inv_exec: "rst_inv c \<Longrightarrow> rst_inv (exec cfg sch c)"
proof (induction sch arbitrary: c)
  case Nil
  then show ?case by simp
next
  case (Cons a sch)
  obtain p s where c: "c = (p, s)"
    by (cases c)
  show ?case
  proof (cases a)
    case Main
    then show ?thesis
      using Cons c rst_inv_step [of p s cfg] by simp
  next
    case Irq
    then show ?thesis
      using Cons c by (simp add: rst_inv_irq)
  qed
qed

lemma rst_inv_init: "rst_inv (L122, main_init)"
  by (simp add: rst_inv_def main_init_def power_on_def stmt_defs rst_held_def reset_pulses_def
      scan_log_def pin_defs)

subsection \<open>Reads of the flag under interleaving\<close>

lemma count_list_replicate_same: "count_list (replicate n x) x = n"
  by (induction n) simp_all

lemma flash_step_keeps:
  assumes "flash_ok f"
  shows "case flash_step x f s of
           (Some f', s') \<Rightarrow> flash_ok f' \<and> flash_todo f' < flash_todo f
                             \<and> activity_flag s' = activity_flag s
         | (None, s') \<Rightarrow> 16 < flash_todo f \<and> activity_flag s' = activity_flag s"
proof (cases f)
  case (F_incr i)
  with assms have lt: "i <s 4" and ge: "0 \<le> sint i"
    by (simp_all add: word_sle_eq)
  from sint_succ_below_4 [OF lt] lt ge show ?thesis
    by (simp add: F_incr word_sle_eq word_sless_alt)
qed (use assms in \<open>auto simp add: stmt_defs word_sle_eq word_sless_alt\<close>)

lemma step_keeps:
  assumes "pc_ok p" and "p \<noteq> L123" and "p \<noteq> L125"
  shows "case step cfg (p, s) of
           (p', s') \<Rightarrow> pc_ok p' \<and> p' \<noteq> L125 \<and> todo p' < todo p
                        \<and> activity_flag s' = activity_flag s"
proof (cases p)
  case (L133 f)
  with assms(1) have "flash_ok f"
    by (simp add: pc_ok_def)
  from flash_step_keeps [OF this, where x = PB3 and s = s] show ?thesis
    by (auto simp add: L133 pc_ok_def split: prod.splits option.splits)
qed (use assms in \<open>auto simp add: pc_ok_def stmt_defs\<close>)

lemma observed_within:
  assumes "pc_ok p" and "activity_flag s" and "p \<noteq> L125"
    and "todo p < count_list sch Main"
  shows "observes cfg sch (p, s)"
  using assms
proof (induction sch arbitrary: p s)
  case Nil
  then show ?case by simp
next
  case (Cons a sch)
  show ?case
  proof (cases a)
    case Irq
    then show ?thesis
      using Cons.prems Cons.IH [of p "ISR_PCINT0 s"]
      by (simp add: ISR_PCINT0_def)
  next
    case Main
    show ?thesis
    proof (cases "p = L123")
      case True
      then show ?thesis
        using Main Cons.prems(2) by simp
    next
      case False
      obtain p' s' where st: "step cfg (p, s) = (p', s')"
        by (cases "step cfg (p, s)")
      from step_keeps [OF Cons.prems(1) False Cons.prems(3), where cfg = cfg and s = s] st
      have k: "pc_ok p'" "p' \<noteq> L125" "todo p' < todo p" "activity_flag s' = activity_flag s"
        by simp_all
      have "todo p' < count_list sch Main"
        using k(3) Cons.prems(4) Main by simp
      from Cons.IH [OF k(1) _ k(2) this, of s'] k(4) Cons.prems(2)
      show ?thesis
        using Main st by simp
    qed
  qed
qed

lemma pc_ok_step: "pc_ok p \<Longrightarrow> pc_ok (fst (step cfg (p, s)))"
proof (cases "p = L123 \<or> p = L125")
  case True
  then show ?thesis
    by (auto simp add: pc_ok_def)
next
  case False
  assume "pc_ok p"
  from step_keeps [OF this, where cfg = cfg and s = s] False show ?thesis
    by (auto split: prod.splits)
qed

lemma pc_ok_exec: "pc_ok (fst c) \<Longrightarrow> pc_ok (fst (exec cfg sch c))"
proof (induction sch arbitrary: c)
  case Nil
  then show ?case by simp
next
  case (Cons a sch)
  obtain p s where c: "c = (p, s)"
    by (cases c)
  show ?case
  proof (cases a)
    case Main
    then show ?thesis
      using Cons c pc_ok_step [of p cfg s] by simp
  next
    case Irq
    then show ?thesis
      using Cons c by simp
  qed
qed

lemma todo_bound: "pc_ok p \<Longrightarrow> todo p \<le> 49"
proof (cases p)
  case (L133 f)
  assume "pc_ok p"
  with L133 have "flash_ok f"
    by (simp add: pc_ok_def)
  then show ?thesis
    by (cases f) (auto simp add: L133 word_sle_eq word_sless_alt)
qed simp_all

lemma lost_step:
  assumes "p = L125 \<or> \<not> activity_flag s"
  shows "case step cfg (p, s) of (p', s') \<Rightarrow> \<not> activity_flag s'"
proof (cases p)
  case (L133 f)
  then show ?thesis
    using assms by (cases f) (simp_all add: stmt_defs)
qed (use assms in \<open>auto simp add: stmt_defs\<close>)

lemma not_observed:
  assumes "p = L125 \<or> \<not> activity_flag s"
  shows "\<not> observes cfg (replicate n Main) (p, s)"
  using assms
proof (induction n arbitrary: p s)
  case 0
  then show ?case by simp
next
  case (Suc n)
  obtain p' s' where st: "step cfg (p, s) = (p', s')"
    by (cases "step cfg (p, s)")
  from lost_step [OF Suc.prems, where cfg = cfg] st have "\<not> activity_flag s'"
    by simp
  then have "\<not> observes cfg (replicate n Main) (p', s')"
    by (simp add: Suc.IH)
  then show ?case
    using Suc.prems st by auto
qed

subsection \<open>One iteration, statement by statement, is one tick\<close>

lemma to_top_inner:
  "p \<noteq> L123 \<Longrightarrow> p \<noteq> L145 \<Longrightarrow> p \<noteq> L152 \<Longrightarrow>
   iterate_to_top (Suc k) cfg (p, s) =
     (case step cfg (p, s) of (p', s') \<Rightarrow>
        if p' = L122 then Some s' else iterate_to_top k cfg (p', s'))"
  by simp

lemma fuel_4: "4 \<le> k \<Longrightarrow> \<exists>j. k = Suc (Suc (Suc (Suc j)))"
  by presburger

lemma to_top_L152:
  assumes "4 \<le> k"
  shows "iterate_to_top k cfg (L152, s) = Some (activity_led_phase s)"
proof -
  from fuel_4 [OF assms] obtain j where k: "k = Suc (Suc (Suc (Suc j)))"
    by blast
  show ?thesis
    unfolding k by (simp add: activity_led_phase_def Let_def)
qed

lemma to_top_L145:
  assumes "8 \<le> k"
  shows "iterate_to_top k cfg (L145, s) = Some (indicator_phase s)"
proof -
  from fuel_4 [of k] assms obtain j where k: "k = Suc (Suc (Suc (Suc j)))"
    by auto
  with assms have j: "4 \<le> j"
    by simp
  show ?thesis
    unfolding k
    apply (subst iterate_to_top.simps(2))
    using j
    apply (simp add: indicator_phase_def timeout_led_phase_def Let_def to_top_inner to_top_L152
        del: iterate_to_top.simps)
    done
qed

lemma funpow_Suc_6: "(Suc ^^ 6) j = Suc (Suc (Suc (Suc (Suc (Suc j)))))"
  by (simp add: eval_nat_numeral)

lemma fuel_36:
  assumes "44 \<le> k"
  shows "\<exists>j. 8 \<le> j \<and>
    k = (Suc ^^ 6) ((Suc ^^ 6) ((Suc ^^ 6) ((Suc ^^ 6) ((Suc ^^ 6) ((Suc ^^ 6) j)))))"
proof -
  have "8 \<le> k - 36 \<and>
    k = (Suc ^^ 6) ((Suc ^^ 6) ((Suc ^^ 6) ((Suc ^^ 6) ((Suc ^^ 6) ((Suc ^^ 6) (k - 36))))))"
    using assms by (simp add: Suc_funpow)
  then show ?thesis
    by blast
qed

lemma to_top_L123:
  assumes "44 \<le> k"
  shows "iterate_to_top k cfg (L123, s) = Some (indicator_phase (engine cfg s))"
proof -
  from fuel_36 [OF assms] obtain j where j: "8 \<le> j"
    and k: "k = (Suc ^^ 6) ((Suc ^^ 6) ((Suc ^^ 6) ((Suc ^^ 6) ((Suc ^^ 6) ((Suc ^^ 6) j)))))"
    by blast
  show ?thesis
    unfolding k funpow_Suc_6
    apply (subst iterate_to_top.simps(2))
    using j
    apply (simp add: engine_def Let_def activity_branch_def timeout_branch_def reset_pulse_def
        FLASH_TEST_def FLASH_def flash_loop_0 flash_body_def word_sless_alt
        to_top_inner to_top_L145 del: iterate_to_top.simps)
    done
qed

theorem iteration_is_tick:
  "iterate_to_top 45 cfg (L122, s) = Some (tick cfg s)"
proof -
  have "iterate_to_top (Suc 44) cfg (L122, s) = Some (tick cfg s)"
    apply (subst iterate_to_top.simps(2))
    apply (simp add: tick_def to_top_L123 del: iterate_to_top.simps)
    done
  then show ?thesis
    by simp
qed

lemma activity_run_pulses:
  "released s \<Longrightarrow> reset_pulses (hw_log (run cfg (replicate n True) s)) = reset_pulses (hw_log s)"
proof (induction n)
  case 0
  then show ?case by simp
next
  case (Suc n)
  have r: "released (ISR_PCINT0 (run cfg (replicate n True) s))"
    using Suc.prems by (simp add: released_ISR run_released)
  show ?case
    using Suc tick_pulses [OF r, of cfg]
    by (simp add: replicate_snoc run_snoc fires_def ISR_fields del: replicate_Suc)
qed

section \<open>The claims\<close>

text \<open>
  C1. The claim: on a tick without activity the counter is incremented and a reset fires
  exactly when the value after the increment has reached the threshold, so that with a
  threshold of 3 and no activity the first reset is on tick 3. Line 131 compares the
  value before the increment: with a threshold of 3, three ticks without activity leave
  the counter at 3 and no pulse on the reset line, and the pulse comes on tick 4; with
  the threshold of the source (1800), 1800 silent ticks give no pulse and tick 1801
  gives the first one.
\<close>

theorem C1_first_reset_one_tick_late:
  "reset_pulses (hw_log (run scenario_config (replicate 3 False) main_init)) = []
   \<and> timeout_counter (run scenario_config (replicate 3 False) main_init) = 3
   \<and> reset_pulses (hw_log (run scenario_config (replicate 4 False) main_init)) = [500]
   \<and> reset_pulses (hw_log (run reference_config (replicate 1800 False) main_init)) = []
   \<and> timeout_counter (run reference_config (replicate 1800 False) main_init) = 1800
   \<and> reset_pulses (hw_log (run reference_config (replicate 1801 False) main_init)) = [500]"
  using first_fire [of scenario_config 3] first_fire [of reference_config 1800]
  by (simp add: scenario_threshold reference_threshold)

text \<open>
  C2. On a tick that finds \<open>activity_flag\<close> set (with the reset line released, as it is
  at every loop top), the iteration clears the flag, sets the counter to zero and arms
  the activity indicator (the counter is loaded with its configured value and the LED
  pin is switched to output and high by lines 127-129), and no reset pulse is emitted:
  the list of completed pulses is unchanged and the line is still released afterwards.
  Nothing is assumed about the counter, so this covers the tick on which the counter
  has reached the threshold.
\<close>

theorem C2_activity_preempts_timeout:
  assumes "activity_flag s" and "released s"
  shows "\<not> activity_flag (tick cfg s)
     \<and> timeout_counter (tick cfg s) = 0
     \<and> activity_led_count (engine cfg (delay_ms 100 s)) = cfg_activity_led cfg
     \<and> bit (DDRB (engine cfg (delay_ms 100 s))) LED_ACTV
     \<and> bit (PORTB (engine cfg (delay_ms 100 s))) LED_ACTV
     \<and> reset_pulses (hw_log (tick cfg s)) = reset_pulses (hw_log s)
     \<and> released (tick cfg s)"
  using assms
  by (simp add: tick_flag tick_counter engine_aled engine_DDRB engine_PORTB delay_fields
      tick_pulses tick_released fires_def pin_defs bit_simps)

text \<open>
  The witness is the specification's scenario D: threshold 3, three silent ticks, and
  the interrupt before the fourth tick, on which the timeout would otherwise fire.
\<close>

theorem C2_activity_preempts_timeout_witness:
  "activity_flag (ISR_PCINT0 (run scenario_config [False, False, False] main_init))
   \<and> released (ISR_PCINT0 (run scenario_config [False, False, False] main_init))
   \<and> cfg_timeout_ticks scenario_config
        \<le> timeout_counter (ISR_PCINT0 (run scenario_config [False, False, False] main_init))
   \<and> timeout_counter
        (tick scenario_config (ISR_PCINT0 (run scenario_config [False, False, False] main_init))) = 0
   \<and> reset_pulses (hw_log
        (tick scenario_config (ISR_PCINT0 (run scenario_config [False, False, False] main_init)))) = []"
  using C2_activity_preempts_timeout
    [of "ISR_PCINT0 (run scenario_config [False, False, False] main_init)" scenario_config]
  by (simp add: run_eval scenario_threshold word_le_nat_alt)

text \<open>
  C3. For every sequence of ticks with and without activity: after a tick the counter
  is zero exactly if that tick consumed activity or emitted a reset pulse. Statement by
  statement, the only assignments of zero are lines 126 and 143; line 131 adds one and
  every other statement, and the interrupt handler, leave the counter alone.
\<close>

theorem C3_counter_zeroed_only_by_activity_or_reset:
  "(let s = run cfg ks main_init;
        s0 = (if k then ISR_PCINT0 s else s);
        t = tick cfg s0
    in (timeout_counter t = 0)
        = (activity_flag s0 \<or> reset_pulses (hw_log t) \<noteq> reset_pulses (hw_log s0)))
   \<and> timeout_counter (snd (step cfg (p, s'))) =
       (if p = L126 \<or> p = L143 then 0
        else if p = L131 then timeout_counter s' + 1 else timeout_counter s')
   \<and> timeout_counter (ISR_PCINT0 s') = timeout_counter s'"
proof -
  define s0 where "s0 = (if k then ISR_PCINT0 (run cfg ks main_init) else run cfg ks main_init)"
  have r: "released s0"
    by (simp add: s0_def released_ISR run_released released_main_init)
  have "(timeout_counter (tick cfg s0) = 0)
        = (activity_flag s0 \<or> reset_pulses (hw_log (tick cfg s0)) \<noteq> reset_pulses (hw_log s0))"
  proof (cases "activity_flag s0 \<or> cfg_timeout_ticks cfg \<le> timeout_counter s0")
    case True
    then show ?thesis
      using r by (auto simp add: tick_counter tick_pulses fires_def)
  next
    case False
    then have "timeout_counter s0 < cfg_timeout_ticks cfg"
      by (simp add: not_le)
    from word_succ_nonzero [OF this] False show ?thesis
      using r by (simp add: tick_counter tick_pulses fires_def)
  qed
  then show ?thesis
    by (simp add: s0_def Let_def step_counter ISR_fields)
qed

text \<open>
  C4. The claim: after a reset the counter restarts from zero and the next reset comes
  after exactly threshold-many further idle ticks; with a threshold of 3 and activity
  on tick 2 the counter runs 1, 0, 1, 2, 3 with the reset on tick 5. The counter does
  restart from zero, and it runs 1, 0, 1, 2, 3, but tick 5 gives no pulse: the reset is
  on tick 6. Without activity the resets are on ticks 4 and 8 (threshold 3), and on
  ticks 1801 and 3602 (threshold 1800): one tick more than the threshold apart.
\<close>

theorem C4_next_reset_one_tick_late:
  "map (\<lambda>n. timeout_counter
          (run scenario_config (take n [False, True, False, False, False, False]) main_init))
     [1, 2, 3, 4, 5, 6] = [1, 0, 1, 2, 3, 0]
   \<and> reset_pulses (hw_log (run scenario_config [False, True, False, False, False] main_init)) = []
   \<and> reset_pulses (hw_log (run scenario_config [False, True, False, False, False, False] main_init))
       = [500]
   \<and> reset_pulses (hw_log (run scenario_config (replicate 7 False) main_init)) = [500]
   \<and> reset_pulses (hw_log (run scenario_config (replicate 8 False) main_init)) = [500, 500]
   \<and> reset_pulses (hw_log (run reference_config (replicate 3601 False) main_init)) = [500]
   \<and> reset_pulses (hw_log (run reference_config (replicate 3602 False) main_init)) = [500, 500]"
proof -
  have a: "map (\<lambda>n. timeout_counter
          (run scenario_config (take n [False, True, False, False, False, False]) main_init))
     [1, 2, 3, 4, 5, 6] = [1, 0, 1, 2, 3, 0]"
    by (simp add: run_eval scenario_threshold word_le_nat_alt)
  have b: "reset_pulses (hw_log (run scenario_config [False, True, False, False, False] main_init)) = []"
    by (simp add: run_eval scenario_threshold word_le_nat_alt)
  have c: "reset_pulses (hw_log (run scenario_config [False, True, False, False, False, False] main_init))
       = [500]"
    by (simp add: run_eval scenario_threshold word_le_nat_alt)
  show ?thesis
    using a b c second_fire [of scenario_config 3] second_fire [of reference_config 1800]
    by (simp add: scenario_threshold reference_threshold)
qed

text \<open>
  C5. The claim: the main loop consumes the flag by one indivisible read-then-clear, so
  that for every interleaving a set of the flag is observed by a later read. In the
  source the read (line 123) and the clear (line 125) are two statements and nothing
  disables the interrupt between them. The interrupt at the start, the delay, the read
  (true), and then a second interrupt before the clear: however long the main loop runs
  on afterwards, no read of the flag returns true, so the second set is never observed.
\<close>

theorem C5_flag_set_between_read_and_clear_is_lost:
  "\<not> (\<forall>sch. \<exists>n. observes reference_config (replicate n Main)
                    (exec reference_config (sch @ [Irq]) (L122, main_init)))"
proof
  assume "\<forall>sch. \<exists>n. observes reference_config (replicate n Main)
                    (exec reference_config (sch @ [Irq]) (L122, main_init))"
  then obtain n where "observes reference_config (replicate n Main)
                    (exec reference_config ([Irq, Main, Main] @ [Irq]) (L122, main_init))"
    by blast
  moreover have "fst (exec reference_config ([Irq, Main, Main] @ [Irq]) (L122, main_init)) = L125"
    by (simp add: ISR_PCINT0_def stmt_defs)
  ultimately show False
    using not_observed [of "fst (exec reference_config ([Irq, Main, Main] @ [Irq]) (L122, main_init))"
        "snd (exec reference_config ([Irq, Main, Main] @ [Irq]) (L122, main_init))"
        reference_config n]
    by simp
qed

text \<open>
  C5, as the code has it. For every interleaving up to some point: if the main loop is
  not between a read that returned true and its clear (not at line 125), then an
  interrupt at that point is observed by a read of the flag, in every continuation in
  which the main loop runs at least 50 statements, other interrupts interleaved at
  will. At line 125 the set of the flag is overwritten by the clear, and the next
  statement of that iteration, which is already in the activity branch, zeroes the
  counter.
\<close>

theorem C5_flag_set_outside_read_clear_window_is_observed:
  "(case exec cfg sch0 (L122, main_init) of (p, s) \<Rightarrow>
      p \<noteq> L125 \<and> 50 \<le> count_list sch Main \<longrightarrow> observes cfg sch (p, ISR_PCINT0 s))
   \<and> step cfg (step cfg (L125, ISR_PCINT0 s'))
       = (L127, s'\<lparr> activity_flag := False, timeout_counter := 0 \<rparr>)"
proof -
  obtain p s where e: "exec cfg sch0 (L122, main_init) = (p, s)"
    by (cases "exec cfg sch0 (L122, main_init)")
  have ok: "pc_ok p"
    using pc_ok_exec [of "(L122, main_init)" cfg sch0] e by (simp add: pc_ok_def)
  have "p \<noteq> L125 \<and> 50 \<le> count_list sch Main \<longrightarrow> observes cfg sch (p, ISR_PCINT0 s)"
  proof
    assume h: "p \<noteq> L125 \<and> 50 \<le> count_list sch Main"
    with todo_bound [OF ok] have "todo p < count_list sch Main"
      by simp
    with h ok show "observes cfg sch (p, ISR_PCINT0 s)"
      by (simp add: observed_within ISR_PCINT0_def)
  qed
  then show ?thesis
    by (simp add: e ISR_PCINT0_def)
qed

text \<open>
  The witness: the interrupt arrives on line 131, just after the read returned false.
\<close>

theorem C5_flag_set_outside_read_clear_window_is_observed_witness:
  "exec reference_config [Main, Main] (L122, main_init) = (L131, delay_ms 100 main_init)
   \<and> L131 \<noteq> L125
   \<and> 50 \<le> count_list (replicate 50 Main) Main
   \<and> observes reference_config (replicate 50 Main)
        (L131, ISR_PCINT0 (delay_ms 100 main_init))"
proof -
  have e: "exec reference_config [Main, Main] (L122, main_init) = (L131, delay_ms 100 main_init)"
    by (simp add: delay_fields main_init_fields)
  show ?thesis
    using C5_flag_set_outside_read_clear_window_is_observed
      [where cfg = reference_config and ?sch0.0 = "[Main, Main]" and sch = "replicate 50 Main"]
    unfolding e
    by (simp add: count_list_replicate_same)
qed

text \<open>
  C6. At every program point the loop can reach, under every interleaving with the
  interrupt: the reset pin drives exactly at the two points between line 138 (switch
  to output) and line 141 (back to tri-state), which enclose only the
  \<open>_delay_ms(500)\<close> of line 140; its \<open>PORTB\<close> bit is never set, so it drives low and is
  tri-stated otherwise; and every completed pulse read off the log lasted exactly
  500 ms of delay. A new pulse starts only from the released line, so pulses never
  overlap.
\<close>

theorem C6_reset_line_driven_only_during_pulse:
  "case exec cfg sch (L122, main_init) of (p, s) \<Rightarrow>
      bit (DDRB s) PIN_RSTO = (p = L140 \<or> p = L141)
      \<and> \<not> bit (PORTB s) PIN_RSTO
      \<and> rst_held (hw_log s) = (if p = L140 then Some 0 else if p = L141 then Some 500 else None)
      \<and> list_all (\<lambda>d. d = 500) (reset_pulses (hw_log s))"
  using rst_inv_exec [OF rst_inv_init, of cfg sch]
  by (simp add: rst_inv_def)

text \<open>
  C7. Each indicator timer: arming (lines 127 and 142) assigns the configured duration
  whatever the count was, so re-arming restarts the countdown; the update phase of a
  tick decrements a count that is greater than zero and leaves a zero count alone; and
  it switches the output off exactly when the count goes from 1 to 0. In every run with
  the indicator durations of the source (any threshold), at each loop top each LED is
  on exactly while its count is greater than zero.
\<close>

theorem C7_indicator_timers:
  "activity_led_count (engine cfg s) =
      (if activity_flag s then cfg_activity_led cfg else activity_led_count s)
   \<and> timeout_led_count (engine cfg s) =
      (if fires cfg s then cfg_timeout_led cfg else timeout_led_count s)
   \<and> timeout_led_count (indicator_phase s) =
      (if 0 < timeout_led_count s then timeout_led_count s - 1 else 0)
   \<and> activity_led_count (indicator_phase s) =
      (if 0 < activity_led_count s then activity_led_count s - 1 else 0)
   \<and> bit (PORTB (indicator_phase s)) LED_TIME =
      (bit (PORTB s) LED_TIME \<and> timeout_led_count s \<noteq> 1)
   \<and> bit (PORTB (indicator_phase s)) LED_ACTV =
      (bit (PORTB s) LED_ACTV \<and> activity_led_count s \<noteq> 1)
   \<and> (let r = run (reference_config\<lparr> cfg_timeout_ticks := thr \<rparr>) ks main_init
       in led_on LED_ACTV r = (0 < activity_led_count r)
          \<and> led_on LED_TIME r = (0 < timeout_led_count r))"
proof -
  have "leds_consistent (run (reference_config\<lparr> cfg_timeout_ticks := thr \<rparr>) ks main_init)"
    by (rule run_leds_consistent) (simp_all add: reference_leds leds_consistent_main_init)
  then show ?thesis
    by (simp add: engine_aled engine_tled indicator_counts indicator_PORTB pin_defs bit_simps
      word_greater_zero_iff leds_consistent_def Let_def)
qed

text \<open>
  C8. A counter armed to N > 0 in an iteration is already N - 1 at the end of that
  iteration. With the durations of the source (2 ticks for the activity indicator, 151
  for the timeout indicator): after the tick that consumed activity
  the activity count is 1 and the LED is on, and the next tick (without new activity)
  brings the count to 0 and switches the LED off; after the tick that fired, the
  timeout count is 150, not 151, and the timeout LED is on for exactly 150 further
  ticks.
\<close>

theorem C8_armed_count_decremented_in_same_iteration:
  "cfg_activity_led reference_config = 2
   \<and> cfg_timeout_led reference_config = 151
   \<and> (activity_flag s \<and> 0 < cfg_activity_led cfg
      \<longrightarrow> activity_led_count (tick cfg s) = cfg_activity_led cfg - 1)
   \<and> (fires cfg s' \<and> 0 < cfg_timeout_led cfg
      \<longrightarrow> timeout_led_count (tick cfg s') = cfg_timeout_led cfg - 1)
   \<and> (activity_flag s
      \<longrightarrow> (let t1 = tick reference_config s; t2 = tick reference_config t1
           in activity_led_count t1 = 1 \<and> led_on LED_ACTV t1
              \<and> activity_led_count t2 = 0 \<and> \<not> led_on LED_ACTV t2))
   \<and> (fires reference_config s' \<and> length ks \<le> 150
      \<longrightarrow> (let t = run reference_config ks (tick reference_config s')
           in timeout_led_count t = 150 - word_of_nat (length ks)
              \<and> led_on LED_TIME t = (length ks < 150)))"
proof -
  have a: "activity_flag s \<and> 0 < cfg_activity_led cfg
      \<longrightarrow> activity_led_count (tick cfg s) = cfg_activity_led cfg - 1"
    by (simp add: activity_tick_leds)
  have b: "fires cfg s' \<and> 0 < cfg_timeout_led cfg
      \<longrightarrow> timeout_led_count (tick cfg s') = cfg_timeout_led cfg - 1"
    by (simp add: fire_tick_leds)
  have c: "activity_flag s
      \<longrightarrow> (let t1 = tick reference_config s; t2 = tick reference_config t1
           in activity_led_count t1 = 1 \<and> led_on LED_ACTV t1
              \<and> activity_led_count t2 = 0 \<and> \<not> led_on LED_ACTV t2)"
  proof
    assume f: "activity_flag s"
    have 1: "activity_led_count (tick reference_config s) = 1"
      and 2: "led_on LED_ACTV (tick reference_config s)"
      using activity_tick_leds [OF f, of reference_config] by (simp_all add: reference_leds)
    show "let t1 = tick reference_config s; t2 = tick reference_config t1
           in activity_led_count t1 = 1 \<and> led_on LED_ACTV t1
              \<and> activity_led_count t2 = 0 \<and> \<not> led_on LED_ACTV t2"
      using 1 2 last_count_tick [OF 1, of reference_config]
      by (simp add: Let_def tick_flag)
  qed
  have d: "fires reference_config s' \<and> length ks \<le> 150
      \<longrightarrow> (let t = run reference_config ks (tick reference_config s')
           in timeout_led_count t = 150 - word_of_nat (length ks)
              \<and> led_on LED_TIME t = (length ks < 150))"
  proof
    assume h: "fires reference_config s' \<and> length ks \<le> 150"
    let ?u = "tick reference_config s'"
    have f: "fires reference_config s'" and l: "length ks \<le> 150"
      using h by simp_all
    have tl: "timeout_led_count ?u = 150" and pb: "bit (PORTB ?u) LED_TIME"
      and db: "bit (DDRB ?u) LED_TIME"
      using fire_tick_leds [OF f] by (simp_all add: reference_leds)
    have tc: "timeout_counter ?u = 0"
      using f by (simp add: tick_counter fires_def)
    have "unat (timeout_counter ?u) + length ks \<le> unat (cfg_timeout_ticks reference_config)"
      using l by (simp add: tc reference_threshold)
    moreover have "length ks \<le> unat (timeout_led_count ?u)"
      using l by (simp add: tl)
    ultimately show "let t = run reference_config ks (tick reference_config s')
           in timeout_led_count t = 150 - word_of_nat (length ks)
              \<and> led_on LED_TIME t = (length ks < 150)"
      using tled_countdown [of ?u ks reference_config] tl pb db
      by (auto simp add: Let_def led_on_def)
  qed
  from a b c d show ?thesis
    by (simp add: reference_leds)
qed

text \<open>
  The witness: the interrupt before the first tick (activity), and the state after 1800
  silent ticks (on which the next tick fires), followed by 150 more silent ticks.
\<close>

theorem C8_armed_count_decremented_in_same_iteration_witness:
  "activity_flag (ISR_PCINT0 main_init)
   \<and> 0 < cfg_activity_led reference_config
   \<and> fires reference_config (run reference_config (replicate 1800 False) main_init)
   \<and> 0 < cfg_timeout_led reference_config
   \<and> length (replicate 150 False) \<le> 150
   \<and> activity_led_count (tick reference_config (ISR_PCINT0 main_init)) = 1
   \<and> led_on LED_ACTV (tick reference_config (ISR_PCINT0 main_init))
   \<and> \<not> led_on LED_ACTV (tick reference_config (tick reference_config (ISR_PCINT0 main_init)))
   \<and> timeout_led_count
        (tick reference_config (run reference_config (replicate 1800 False) main_init)) = 150
   \<and> timeout_led_count
        (run reference_config (replicate 150 False)
          (tick reference_config (run reference_config (replicate 1800 False) main_init))) = 0
   \<and> \<not> led_on LED_TIME
        (run reference_config (replicate 150 False)
          (tick reference_config (run reference_config (replicate 1800 False) main_init)))"
proof -
  have f: "fires reference_config (run reference_config (replicate 1800 False) main_init)"
    using first_fire [of reference_config 1800] run_flag [of main_init reference_config "replicate 1800 False"]
    by (simp add: fires_def reference_threshold main_init_fields)
  show ?thesis
    using f C8_armed_count_decremented_in_same_iteration
      [of "ISR_PCINT0 main_init" reference_config
          "run reference_config (replicate 1800 False) main_init" "replicate 150 False"]
    by (simp add: ISR_fields reference_leds Let_def)
qed

text \<open>
  C9. The indicator update phase (lines 145-158) leaves \<open>activity_flag\<close>,
  \<open>timeout_counter\<close> and \<open>DDRB\<close> unchanged, changes no bit of \<open>PORTB\<close> other than
  the two LED bits, and adds only \<open>PORTB\<close> writes to the log (no delay). Whatever branch
  lines 123-144 took, the tick ends with both counts decremented if positive.
\<close>

theorem C9_indicator_phase_frame:
  "activity_flag (indicator_phase s) = activity_flag s
   \<and> timeout_counter (indicator_phase s) = timeout_counter s
   \<and> DDRB (indicator_phase s) = DDRB s
   \<and> PORTB (indicator_phase s) OR (BV LED_TIME OR BV LED_ACTV)
       = PORTB s OR (BV LED_TIME OR BV LED_ACTV)
   \<and> (\<exists>evs. hw_log (indicator_phase s) = hw_log s @ evs \<and> list_all is_PORTB_write evs)
   \<and> timeout_led_count (tick cfg s) =
       (let c = (if fires cfg s then cfg_timeout_led cfg else timeout_led_count s)
        in if 0 < c then c - 1 else c)
   \<and> activity_led_count (tick cfg s) =
       (let c = (if activity_flag s then cfg_activity_led cfg else activity_led_count s)
        in if 0 < c then c - 1 else c)"
  using indicator_log [of s] indicator_PORTB_others [of s]
  by (simp add: indicator_frame tick_def indicator_counts engine_aled engine_tled fires_delay
      delay_fields Let_def)

text \<open>
  C10. \<open>TIMEOUT_TICKS\<close> is the configured timeout (3 minutes, in milliseconds) divided by
  the tick period (100 ms): the 32-bit computation of the macro yields 1800, which is
  the quotient of the exact (unbounded) arithmetic; the product stays below \<open>2 ^ 32\<close>
  (no overflow), the division leaves no remainder (no truncation), and the result is
  greater than zero. It is the threshold the loop compares against.
\<close>

theorem C10_timeout_ticks_reference:
  "TIMEOUT_TICKS = 1800
   \<and> unat TIMEOUT_TICKS = (TIMEOUT_MINUTES * 60 * 1000) div TICK_MS
   \<and> (TIMEOUT_MINUTES * 60 * 1000) mod TICK_MS = 0
   \<and> TIMEOUT_MINUTES * 60 * 1000 < 2 ^ 32
   \<and> 0 < TIMEOUT_TICKS
   \<and> cfg_timeout_ticks reference_config = TIMEOUT_TICKS"
  by (simp add: TIMEOUT_TICKS_def timeout_ticks_of_def TIMEOUT_MINUTES_def TICK_MS_def
      reference_config_def)

section \<open>Further properties\<close>

text \<open>
  The macro of line 72 for other configurations: it is the exact quotient as long as
  the timeout in milliseconds fits 32 bits, that is up to 71582 minutes; with 71583
  minutes and the 100 ms tick the product wraps and the threshold would be 127 ticks.
\<close>

theorem timeout_ticks_macro_exact_or_wrapping:
  "(minutes * 60000 < 2 ^ 32 \<and> tick_ms < 2 ^ 32
      \<longrightarrow> unat (timeout_ticks_of minutes tick_ms) = (minutes * 60 * 1000) div tick_ms)
   \<and> unat (timeout_ticks_of 71583 100) = 127"
proof -
  have "unat (timeout_ticks_of 71583 100) = 127"
    by (simp add: timeout_ticks_of_def)
  then show ?thesis
    using timeout_ticks_exact [of minutes tick_ms] by blast
qed

theorem timeout_ticks_macro_exact_or_wrapping_witness:
  "TIMEOUT_MINUTES * 60000 < 2 ^ 32 \<and> TICK_MS < 2 ^ 32
   \<and> unat (timeout_ticks_of TIMEOUT_MINUTES TICK_MS) = 1800"
  using timeout_ticks_macro_exact_or_wrapping [of TIMEOUT_MINUTES TICK_MS]
  by (simp add: TIMEOUT_MINUTES_def TICK_MS_def)

text \<open>
  What line 131 decides: on a tick without activity (the reset line released) a reset
  pulse is emitted exactly if the counter had reached the threshold before this tick's
  increment, and none is emitted exactly if it was below.
\<close>

theorem idle_tick_fires_iff_counter_was_at_threshold:
  assumes "released s" and "\<not> activity_flag s"
  shows "(reset_pulses (hw_log (tick cfg s)) = reset_pulses (hw_log s) @ [500])
           = (cfg_timeout_ticks cfg \<le> timeout_counter s)
       \<and> (reset_pulses (hw_log (tick cfg s)) = reset_pulses (hw_log s))
           = (timeout_counter s < cfg_timeout_ticks cfg)"
  using assms by (auto simp add: tick_pulses fires_def)

theorem idle_tick_fires_iff_counter_was_at_threshold_witness:
  "released (run scenario_config [False, False] main_init)
   \<and> \<not> activity_flag (run scenario_config [False, False] main_init)
   \<and> timeout_counter (run scenario_config [False, False] main_init) = 2
   \<and> timeout_counter (tick scenario_config (run scenario_config [False, False] main_init)) = 3
   \<and> reset_pulses (hw_log (tick scenario_config (run scenario_config [False, False] main_init)))
       = reset_pulses (hw_log (run scenario_config [False, False] main_init))"
  using idle_tick_fires_iff_counter_was_at_threshold
     [of "run scenario_config [False, False] main_init" scenario_config]
  by (simp add: run_eval scenario_threshold word_le_nat_alt word_less_nat_alt)

text \<open>
  The specification's scenario C, for any threshold: with activity before every tick no
  reset pulse is ever emitted, the counter is zero after every tick and the activity
  LED is on after every tick.
\<close>

theorem activity_on_every_tick_never_fires:
  "reset_pulses (hw_log (run (reference_config\<lparr> cfg_timeout_ticks := thr \<rparr>)
        (replicate n True) main_init)) = []
   \<and> timeout_counter (run (reference_config\<lparr> cfg_timeout_ticks := thr \<rparr>)
        (replicate (Suc n) True) main_init) = 0
   \<and> led_on LED_ACTV (run (reference_config\<lparr> cfg_timeout_ticks := thr \<rparr>)
        (replicate (Suc n) True) main_init)"
  using activity_tick_leds(2)
    [of "ISR_PCINT0 (run (reference_config\<lparr> cfg_timeout_ticks := thr \<rparr>) (replicate n True) main_init)"
        "reference_config\<lparr> cfg_timeout_ticks := thr \<rparr>"]
  by (simp add: activity_run_pulses released_main_init main_init_fields replicate_snoc run_snoc
      ISR_fields tick_counter reference_leds del: replicate_Suc)

end
